theory Spec2Isabelle
  imports Main "HOL-Library.Word"
begin

section \<open>Strings and character classes\<close>

text \<open>
  A Go string is a sequence of bytes; it is modelled as a \<open>string\<close> (a list of 8-bit
  characters). The regular expressions of the program mention ASCII characters only, and a
  byte of a multi-byte (or invalid) UTF-8 sequence never lies in an ASCII class, so matching
  byte by byte agrees with Go's matching rune by rune.
\<close>

definition in_range :: "char \<Rightarrow> char \<Rightarrow> char \<Rightarrow> bool" where
  \<comment> \<open>the class range \<open>lo-hi\<close> of a regular expression\<close>
  "in_range lo hi c = ((of_char lo :: nat) \<le> of_char c \<and> (of_char c :: nat) \<le> of_char hi)"

definition is_lower :: "char \<Rightarrow> bool" where
  "is_lower c = in_range CHR ''a'' CHR ''z'' c"

definition is_upper :: "char \<Rightarrow> bool" where
  "is_upper c = in_range CHR ''A'' CHR ''Z'' c"

definition is_digit :: "char \<Rightarrow> bool" where
  "is_digit c = in_range CHR ''0'' CHR ''9'' c"

definition lower_chars :: "char list" where
  "lower_chars = ''abcdefghijklmnopqrstuvwxyz''"

definition upper_chars :: "char list" where
  "upper_chars = ''ABCDEFGHIJKLMNOPQRSTUVWXYZ''"

definition digit_chars :: "char list" where
  "digit_chars = ''0123456789''"

section \<open>helper.go: charchecker\<close>

text \<open>
  \<^verbatim>\<open>var illegalCharPattern = regexp.MustCompile(`[^a-z0-9_-]`)\<close>: the negated class, and
  \<open>MatchString\<close>, an unanchored search for one character of that class.
\<close>

definition illegalChar :: "char \<Rightarrow> bool" where
  "illegalChar c = (\<not> (is_lower c \<or> is_digit c \<or> c = CHR ''_'' \<or> c = CHR ''-''))"

fun illegalCharPattern_MatchString :: "string \<Rightarrow> bool" where
  "illegalCharPattern_MatchString [] = False"
| "illegalCharPattern_MatchString (c # cs) =
     (if illegalChar c then True else illegalCharPattern_MatchString cs)"

text \<open>\<open>charchecker\<close> returns \<open>nil\<close> (here \<open>None\<close>) if no bad characters are found.\<close>

definition charchecker :: "string \<Rightarrow> string option" where
  "charchecker name =
     (if illegalCharPattern_MatchString name then Some ''name contains bad characters''
      else None)"

section \<open>Library functions of Go used by the handlers\<close>

text \<open>
  \<open>strings.Split(s, sep)\<close> for a one-byte separator: the pieces between the separators;
  the empty string splits into one empty piece.
\<close>

fun strings_Split :: "string \<Rightarrow> char \<Rightarrow> string list" where
  "strings_Split [] sep = [[]]"
| "strings_Split (c # cs) sep =
     (if c = sep then [] # strings_Split cs sep
      else (case strings_Split cs sep of
              piece # pieces \<Rightarrow> (c # piece) # pieces
            | [] \<Rightarrow> [[c]]))"

definition strings_HasSuffix :: "string \<Rightarrow> string \<Rightarrow> bool" where
  "strings_HasSuffix s suffix =
     (length suffix \<le> length s \<and> drop (length s - length suffix) s = suffix)"

definition strings_TrimSuffix :: "string \<Rightarrow> string \<Rightarrow> string" where
  "strings_TrimSuffix s suffix =
     (if strings_HasSuffix s suffix then take (length s - length suffix) s else s)"

definition strings_HasPrefix :: "string \<Rightarrow> string \<Rightarrow> bool" where
  "strings_HasPrefix s pre = (take (length pre) s = pre)"

text \<open>
  \<open>strings.ToLower\<close>: a string of ASCII bytes is lowered byte by byte; any other string goes
  through \<open>strings.Map(unicode.ToLower, s)\<close>, which depends on the Unicode tables of the Go
  runtime and is the parameter \<open>ul\<close> here.
\<close>

definition is_ascii :: "char \<Rightarrow> bool" where
  "is_ascii c = ((of_char c :: nat) < 128)"

definition ascii_lower :: "char \<Rightarrow> char" where
  "ascii_lower c = (if is_upper c then char_of ((of_char c :: nat) + 32) else c)"

definition strings_ToLower :: "(string \<Rightarrow> string) \<Rightarrow> string \<Rightarrow> string" where
  "strings_ToLower ul s = (if list_all is_ascii s then map ascii_lower s else ul s)"

text \<open>\<open>strings.ReplaceAll(s, " ", "-")\<close>.\<close>

definition replace_spaces :: "string \<Rightarrow> string" where
  "replace_spaces s = map (\<lambda>c. if c = CHR '' '' then CHR ''-'' else c) s"

text \<open>
  \<^verbatim>\<open>var slugRegex = regexp.MustCompile("[^a-zA-Z0-9-]+")\<close> and
  \<open>slugRegex.ReplaceAllString(s, "")\<close>: every maximal run of characters of the negated
  class is deleted.
\<close>

definition slugBad :: "char \<Rightarrow> bool" where
  "slugBad c = (\<not> (is_lower c \<or> is_upper c \<or> is_digit c \<or> c = CHR ''-''))"

function slugRegex_delete :: "string \<Rightarrow> string" where
  "slugRegex_delete [] = []"
| "slugRegex_delete (c # cs) =
     (if slugBad c then slugRegex_delete (dropWhile slugBad cs)
      else c # slugRegex_delete cs)"
  by pat_completeness auto
termination
  by (relation "measure length") (auto simp: length_dropWhile_le le_imp_less_Suc)

subsection \<open>path/filepath on a Unix system (separator \<open>/\<close>, no volume names)\<close>

text \<open>
  \<open>filepath.Base\<close>: the last element of the path, after the trailing slashes are removed;
  \<open>"."\<close> for the empty path and \<open>"/"\<close> for a path of slashes only.
\<close>

definition filepath_Base :: "string \<Rightarrow> string" where
  "filepath_Base path =
     (if path = [] then ''.''
      else let p = rev (dropWhile (\<lambda>c. c = CHR ''/'') (rev path));
               e = rev (takeWhile (\<lambda>c. c \<noteq> CHR ''/'') (rev p))
           in if e = [] then ''/'' else e)"

text \<open>
  \<open>filepath.Clean\<close>, as the library's loop: \<open>r\<close> is the unread rest of the path, \<open>out\<close> the
  output buffer (kept reversed), \<open>dotdot\<close> the length of the output that a \<open>..\<close> element
  must not remove.
\<close>

fun clean_backtrack :: "nat \<Rightarrow> string \<Rightarrow> string" where
  "clean_backtrack dotdot [] = []"
| "clean_backtrack dotdot (c # out) =
     (if dotdot < length out \<and> c \<noteq> CHR ''/'' then clean_backtrack dotdot out else out)"

definition at_elem_end :: "string \<Rightarrow> bool" where
  \<comment> \<open>the read position is at the end of the path or at a separator\<close>
  "at_elem_end r = (case r of [] \<Rightarrow> True | c # _ \<Rightarrow> c = CHR ''/'')"

function clean_loop :: "bool \<Rightarrow> string \<Rightarrow> string \<Rightarrow> nat \<Rightarrow> string" where
  "clean_loop rooted [] out dotdot = out"
| "clean_loop rooted (c # r) out dotdot =
     (if c = CHR ''/'' then clean_loop rooted r out dotdot
      else if c = CHR ''.'' \<and> at_elem_end r then clean_loop rooted r out dotdot
      else if c = CHR ''.'' \<and> r \<noteq> [] \<and> hd r = CHR ''.'' \<and> at_elem_end (tl r) then
        (if dotdot < length out then
           clean_loop rooted (tl r) (clean_backtrack dotdot out) dotdot
         else if \<not> rooted then
           (let out' = ''..'' @ (if out \<noteq> [] then CHR ''/'' # out else out)
            in clean_loop rooted (tl r) out' (length out'))
         else clean_loop rooted (tl r) out dotdot)
      else
        (let out' = (if (rooted \<and> length out \<noteq> 1) \<or> (\<not> rooted \<and> out \<noteq> [])
                     then CHR ''/'' # out else out)
         in clean_loop rooted (dropWhile (\<lambda>x. x \<noteq> CHR ''/'') r)
              (rev (takeWhile (\<lambda>x. x \<noteq> CHR ''/'') (c # r)) @ out') dotdot))"
  by pat_completeness auto
termination
  by (relation "measure (\<lambda>(rooted, r, out, dotdot). length r)")
     (auto simp: length_dropWhile_le le_imp_less_Suc)

definition filepath_Clean :: "string \<Rightarrow> string" where
  "filepath_Clean path =
     (if path = [] then ''.''
      else let rooted = (hd path = CHR ''/'');
               out = (if rooted then clean_loop True (tl path) ''/'' 1
                      else clean_loop False path [] 0)
           in if out = [] then ''.'' else rev out)"

text \<open>\<open>filepath.Join(a, b)\<close>: the non-empty elements joined by \<open>/\<close>, then cleaned.\<close>

definition filepath_Join :: "string \<Rightarrow> string \<Rightarrow> string" where
  "filepath_Join a b =
     (if a = [] \<and> b = [] then []
      else if a = [] then filepath_Clean b
      else filepath_Clean (a @ ''/'' @ b))"

section \<open>helper.go: the YouTube extractor\<close>

text \<open>
  \<^verbatim>\<open>(?:https?:\/\/)?(?:www\.)?(?:youtube\.com\/(?:watch\?v=|embed\/)|youtu\.be\/)([a-zA-Z0-9\-_]+)\<close>
  The matcher below is the backtracking reading of the expression, which is what Go's
  leftmost-first matching returns: an optional group is tried first with its contents and
  then without, an alternation left to right, and the final class repetition is greedy.
  Each matcher returns the captured video ID and the input left after the match.
\<close>

definition strip_prefix :: "string \<Rightarrow> string \<Rightarrow> string option" where
  "strip_prefix pre s = (if take (length pre) s = pre then Some (drop (length pre) s) else None)"

definition orElse :: "'a option \<Rightarrow> 'a option \<Rightarrow> 'a option" where
  "orElse a b = (case a of Some x \<Rightarrow> Some x | None \<Rightarrow> b)"

definition idChar :: "char \<Rightarrow> bool" where
  "idChar c = (is_lower c \<or> is_upper c \<or> is_digit c \<or> c = CHR ''-'' \<or> c = CHR ''_'')"

definition match_videoID :: "string \<Rightarrow> (string \<times> string) option" where
  "match_videoID s =
     (if takeWhile idChar s = [] then None
      else Some (takeWhile idChar s, dropWhile idChar s))"

definition match_host :: "string \<Rightarrow> (string \<times> string) option" where
  "match_host s =
     orElse
       (case strip_prefix ''youtube.com/'' s of
          None \<Rightarrow> None
        | Some r \<Rightarrow>
            orElse (Option.bind (strip_prefix ''watch?v='' r) match_videoID)
                   (Option.bind (strip_prefix ''embed/'' r) match_videoID))
       (Option.bind (strip_prefix ''youtu.be/'' s) match_videoID)"

definition match_www :: "string \<Rightarrow> (string \<times> string) option" where
  "match_www s = orElse (Option.bind (strip_prefix ''www.'' s) match_host) (match_host s)"

definition match_scheme :: "string \<Rightarrow> (string \<times> string) option" where
  "match_scheme s =
     orElse
       (case strip_prefix ''http'' s of
          None \<Rightarrow> None
        | Some r \<Rightarrow>
            orElse
              (Option.bind (strip_prefix ''s'' r)
                 (\<lambda>r'. Option.bind (strip_prefix ''://'' r') match_www))
              (Option.bind (strip_prefix ''://'' r) match_www))
       (match_www s)"

text \<open>
  \<open>youtubeRegex.FindStringSubmatch\<close>: the leftmost match, as the list of the whole match
  and the capture group; the empty list (\<open>nil\<close>) when nothing matches.
\<close>

fun youtubeRegex_FindStringSubmatch :: "string \<Rightarrow> string list" where
  "youtubeRegex_FindStringSubmatch [] = []"
| "youtubeRegex_FindStringSubmatch (c # cs) =
     (case match_scheme (c # cs) of
        Some (videoID, rest) \<Rightarrow> [take (length (c # cs) - length rest) (c # cs), videoID]
      | None \<Rightarrow> youtubeRegex_FindStringSubmatch cs)"

definition extractYouTubeVideoInfo :: "string \<Rightarrow> string \<times> string" where
  "extractYouTubeVideoInfo text =
     (let matches = youtubeRegex_FindStringSubmatch text in
      if length matches > 1 then
        (let videoID = matches ! 1;
             embedURL = ''https://www.youtube.com/embed/'' @ videoID
         in (embedURL, videoID))
      else ([], []))"

text \<open>main.go: the earlier helper, which returns the embed URL only.\<close>

definition processYouTubeURL :: "string \<Rightarrow> string" where
  "processYouTubeURL text =
     (let matches = youtubeRegex_FindStringSubmatch text in
      if length matches > 1 then
        (let videoID = matches ! 1 in ''https://www.youtube.com/embed/'' @ videoID)
      else [])"

section \<open>The file system, requests and responses\<close>

text \<open>
  The state the handlers share is the file system: the contents of the regular files by
  path. \<open>denied\<close> holds the paths that cannot be opened for writing and \<open>full\<close> says that
  writing data fails, so that the handlers' storage-error branches are reachable.
\<close>

record fs =
  files :: "string \<rightharpoonup> string"
  denied :: "string set"
  full :: bool

datatype os_error = ErrNotExist | ErrPermission | ErrNoSpace

definition os_ReadFile :: "fs \<Rightarrow> string \<Rightarrow> os_error + string" where
  "os_ReadFile s name = (case files s name of None \<Rightarrow> Inl ErrNotExist | Some d \<Rightarrow> Inr d)"

definition os_Stat :: "fs \<Rightarrow> string \<Rightarrow> os_error option" where
  "os_Stat s name = (case files s name of None \<Rightarrow> Some ErrNotExist | Some d \<Rightarrow> None)"

definition os_WriteFile :: "fs \<Rightarrow> string \<Rightarrow> string \<Rightarrow> os_error + fs" where
  "os_WriteFile s name data =
     (if name \<in> denied s then Inl ErrPermission
      else if full s then Inl ErrNoSpace
      else Inr (s\<lparr>files := (files s)(name \<mapsto> data)\<rparr>))"

definition contents :: "fs \<Rightarrow> string \<Rightarrow> string" where
  "contents s name = (case files s name of None \<Rightarrow> [] | Some d \<Rightarrow> d)"

text \<open>\<open>os.OpenFile(name, O_APPEND|O_CREATE|O_WRONLY, 0644)\<close> creates the file if it is absent.\<close>

definition os_OpenFile_append :: "fs \<Rightarrow> string \<Rightarrow> os_error + fs" where
  "os_OpenFile_append s name =
     (if name \<in> denied s then Inl ErrPermission
      else Inr (s\<lparr>files := (files s)(name \<mapsto> contents s name)\<rparr>))"

definition file_WriteString :: "fs \<Rightarrow> string \<Rightarrow> string \<Rightarrow> os_error + fs" where
  "file_WriteString s name data =
     (if full s then Inl ErrNoSpace
      else Inr (s\<lparr>files := (files s)(name \<mapsto> contents s name @ data)\<rparr>))"

text \<open>
  A request: its method, its URL path and the outcome of decoding its JSON body into the
  handler's one-field struct (\<open>None\<close> when \<open>Decode\<close> returns an error, otherwise the value
  of the field).
\<close>

record request =
  Method :: string
  Path :: string
  Decoded :: "string option"

record Page =
  Title :: string
  Body :: string
  Foot :: string
  YouTubeEmbed :: "string list"
  Head :: string
  Year :: int

record DirEntry =
  Name :: string
  IsDir :: bool

datatype tdata = PageNames "string list" | PageData Page

text \<open>
  What a handler does to the response writer: \<open>http.Error\<close>, \<open>http.Redirect\<close>,
  \<open>http.NotFound\<close>, a status with a body, or the execution of a template on its data.
  \<open>Panic\<close> is a run-time panic of the handler.
\<close>

datatype response =
    HttpError nat string
  | Redirect string nat
  | NotFound
  | Written nat string
  | Rendered string tdata
  | Panic

section \<open>main.go: the handlers\<close>

subsection \<open>createPageHandler\<close>

text \<open>
  Step 1 of the handler, "Sanitize the name into a URL-friendly slug":
  \<^verbatim>\<open>
  slug := strings.ToLower(reqBody.Name)
  slug = strings.ReplaceAll(slug, " ", "-")
  slug = slugRegex.ReplaceAllString(slug, "")
  if slug == "" { slug = "untitled" }
  \<close>
\<close>

definition sanitize :: "(string \<Rightarrow> string) \<Rightarrow> string \<Rightarrow> string" where
  "sanitize ul name =
     (let slug = strings_ToLower ul name;
          slug = replace_spaces slug;
          slug = slugRegex_delete slug
      in if slug = [] then ''untitled'' else slug)"

definition createPageHandler :: "(string \<Rightarrow> string) \<Rightarrow> fs \<Rightarrow> request \<Rightarrow> fs \<times> response" where
  "createPageHandler ul s r =
     (if Method r \<noteq> ''POST'' then (s, HttpError 405 ''Invalid method'')
      else case Decoded r of
        None \<Rightarrow> (s, HttpError 400 ''Bad request'')
      | Some name \<Rightarrow>
          if charchecker name \<noteq> None then
            (s, HttpError 400 ''Bad name found, try again. Cannot use symbols, try words only.'')
          else if name = [] \<or> name = '' '' then
            (s, HttpError 400 ''Page name is required'')
          else
            (let slug = sanitize ul name;
                 filename = filepath_Join ''pages'' (slug @ ''.txt'')
             in if os_Stat s filename = None then (s, Redirect (''/page/'' @ slug) 302)
                else
                  (let defaultBody = ''This is the new page for **'' @ name @ ''**''
                   in case os_WriteFile s filename defaultBody of
                        Inl err \<Rightarrow> (s, HttpError 500 ''Could not save page'')
                      | Inr s' \<Rightarrow> (s', Redirect (''/page/'' @ slug) 303))))"

subsection \<open>pageViewHandler\<close>

text \<open>
  The two file names the handler opens for the request path: the slug is the path after
  \<open>/page/\<close>, cut to its base name.
\<close>

definition safeSlug_of :: "string \<Rightarrow> string" where
  "safeSlug_of path = filepath_Base (drop (length ''/page/'') path)"

definition page_filename :: "string \<Rightarrow> string" where
  "page_filename path = filepath_Join ''pages'' (safeSlug_of path @ ''.txt'')"

definition youtube_filename :: "string \<Rightarrow> string" where
  "youtube_filename path = filepath_Join ''pages'' (safeSlug_of path @ ''.youtube.txt'')"

text \<open>
  The loop over the lines of the link file:
  \<^verbatim>\<open>
  for _, url := range urls {
      if url != "" { embedURLs = append(embedURLs, processYouTubeURL(url)) }
  }
  \<close>
\<close>

fun collect_embeds :: "string list \<Rightarrow> string list \<Rightarrow> string list" where
  "collect_embeds [] embedURLs = embedURLs"
| "collect_embeds (url # urls) embedURLs =
     collect_embeds urls (if url \<noteq> [] then embedURLs @ [processYouTubeURL url] else embedURLs)"

definition read_embeds :: "fs \<Rightarrow> string \<Rightarrow> string list" where
  \<comment> \<open>"Read the optional YouTube link file"\<close>
  "read_embeds s youtubeFilename =
     (case os_ReadFile s youtubeFilename of
        Inl err \<Rightarrow> []
      | Inr youtubeURLs \<Rightarrow> collect_embeds (strings_Split youtubeURLs CHR 0x0A) [])"

definition pageViewHandler :: "int \<Rightarrow> fs \<Rightarrow> request \<Rightarrow> response" where
  "pageViewHandler year s r =
     (if length (Path r) < length ''/page/'' then Panic
      else
        (let safeSlug = safeSlug_of (Path r) in
         case os_ReadFile s (page_filename (Path r)) of
           Inl err \<Rightarrow> NotFound
         | Inr body \<Rightarrow>
             Rendered ''page.html''
               (PageData \<lparr>Title = safeSlug, Body = body, Foot = [],
                  YouTubeEmbed = read_embeds s (youtube_filename (Path r)),
                  Head = [], Year = year\<rparr>)))"

subsection \<open>indexHandler\<close>

text \<open>The argument is the outcome of \<open>os.ReadDir("pages")\<close>.\<close>

fun page_names :: "DirEntry list \<Rightarrow> string list \<Rightarrow> string list" where
  "page_names [] pageNames = pageNames"
| "page_names (file # fileList) pageNames =
     page_names fileList
       (if \<not> IsDir file \<and> strings_HasSuffix (Name file) ''.txt''
        then pageNames @ [strings_TrimSuffix (Name file) ''.txt'']
        else pageNames)"

definition indexHandler :: "os_error + DirEntry list \<Rightarrow> response" where
  "indexHandler dir =
     (case dir of
        Inl err \<Rightarrow> HttpError 500 ''Could not list pages''
      | Inr fileList \<Rightarrow> Rendered ''index.html'' (PageNames (page_names fileList [])))"

subsection \<open>youtubeSaveHandler (the appending version)\<close>

definition youtubeSaveHandler :: "fs \<Rightarrow> request \<Rightarrow> fs \<times> response" where
  "youtubeSaveHandler s r =
     (if Method r \<noteq> ''POST'' then (s, HttpError 405 ''Invalid method'')
      else
        (let pathParts = strings_Split (Path r) CHR ''/'' in
         if length pathParts < 4 then (s, HttpError 400 ''Invalid URL'')
         else
           (let slug = pathParts ! 3 in
            case Decoded r of
              None \<Rightarrow> (s, HttpError 400 ''Bad request'')
            | Some url \<Rightarrow>
                if fst (extractYouTubeVideoInfo url) = [] then
                  (s, HttpError 400 ''Invalid YouTube URL'')
                else
                  (let filename = filepath_Join ''pages'' (slug @ ''.youtube.txt'') in
                   case os_OpenFile_append s filename of
                     Inl err \<Rightarrow> (s, HttpError 500 ''Could not save link'')
                   | Inr s1 \<Rightarrow>
                       (case file_WriteString s1 filename (url @ [CHR 0x0A]) of
                          Inl err \<Rightarrow> (s1, HttpError 500 ''Could not save link'')
                        | Inr s2 \<Rightarrow> (s2, Written 200 ''YouTube link saved!''))))))"

subsection \<open>youtubeVoteHandler\<close>

text \<open>
  The tally is a \<open>map[string]int\<close>; Go's \<open>int\<close> is a 64-bit word. The JSON codec of the
  tally file (\<open>json.Unmarshal\<close>, \<open>json.Marshal\<close>) is a parameter of the handler.
\<close>

type_synonym votes = "string \<rightharpoonup> 64 word"

record json_codec =
  Unmarshal :: "string \<Rightarrow> votes option"
  Marshal :: "votes \<Rightarrow> string option"

definition tally :: "votes \<Rightarrow> string \<Rightarrow> 64 word" where
  \<comment> \<open>reading a map at an absent key gives the zero value\<close>
  "tally v k = (case v k of None \<Rightarrow> 0 | Some n \<Rightarrow> n)"

definition youtubeVoteHandler :: "json_codec \<Rightarrow> fs \<Rightarrow> request \<Rightarrow> fs \<times> response" where
  "youtubeVoteHandler js s r =
     (if Method r \<noteq> ''POST'' then (s, HttpError 405 ''Invalid method'')
      else
        (let pathParts = strings_Split (Path r) CHR ''/'' in
         if length pathParts < 5 then (s, HttpError 400 ''Invalid URL'')
         else
           (let slug = pathParts ! 2;
                videoID = pathParts ! 3;
                action = pathParts ! 4
            in if action \<noteq> ''upvote'' \<and> action \<noteq> ''downvote'' then
                 (s, HttpError 400 ''Invalid action'')
               else
                 (let votesFilename = filepath_Join ''pages'' (slug @ ''.votes.json'');
                      loaded = (case os_ReadFile s votesFilename of
                                  Inl err \<Rightarrow> Some Map.empty
                                | Inr data \<Rightarrow> Unmarshal js data)
                  in case loaded of
                       None \<Rightarrow> (s, HttpError 500 ''Could not process votes'')
                     | Some votes \<Rightarrow>
                         (let votes' = (if action = ''upvote''
                                        then votes(videoID \<mapsto> tally votes videoID + 1)
                                        else votes(videoID \<mapsto> tally votes videoID - 1))
                          in case Marshal js votes' of
                               None \<Rightarrow> (s, HttpError 500 ''Could not save vote'')
                             | Some updatedData \<Rightarrow>
                                 (case os_WriteFile s votesFilename updatedData of
                                    Inl err \<Rightarrow> (s, HttpError 500 ''Could not save vote'')
                                  | Inr s' \<Rightarrow> (s', Written 200 ''Vote saved!'')))))))"

section \<open>Notions of the specification\<close>

text \<open>
  "A recognizable YouTube reference", in the words of the specification: one of the three
  host forms \<open>youtube.com/watch?v=\<close>, \<open>youtube.com/embed/\<close>, \<open>youtu.be/\<close>, followed by
  at least one character of the video ID charset, somewhere in the text.
\<close>

definition spec_hosts :: "string list" where
  "spec_hosts = [''youtube.com/watch?v='', ''youtube.com/embed/'', ''youtu.be/'']"

definition spec_reference_at :: "string \<Rightarrow> bool" where
  "spec_reference_at s =
     list_ex (\<lambda>h. case strip_prefix h s of Some (c # rest) \<Rightarrow> idChar c | _ \<Rightarrow> False) spec_hosts"

fun spec_has_reference :: "string \<Rightarrow> bool" where
  "spec_has_reference [] = False"
| "spec_has_reference (c # cs) = (spec_reference_at (c # cs) \<or> spec_has_reference cs)"

text \<open>The supported URL shapes: each host form, optionally after a scheme and \<open>www.\<close>.\<close>

definition spec_url_shapes :: "string list" where
  "spec_url_shapes =
     concat (map (\<lambda>scheme. concat (map (\<lambda>www. map (\<lambda>host. scheme @ www @ host) spec_hosts)
                                      [[], ''www.'']))
                 [[], ''http://'', ''https://''])"

text \<open>The characters a slug is made of, \<open>[a-z0-9-]\<close>, and those of a legal name.\<close>

definition spec_slug_chars :: "char set" where
  "spec_slug_chars = set lower_chars \<union> set digit_chars \<union> {CHR ''-''}"

definition spec_name_chars :: "char set" where
  "spec_name_chars = set lower_chars \<union> set digit_chars \<union> {CHR ''_'', CHR ''-''}"

text \<open>An empty, writable file system, and a codec for the examples.\<close>

definition empty_fs :: fs where
  "empty_fs = \<lparr>files = Map.empty, denied = {}, full = False\<rparr>"

definition post :: "string \<Rightarrow> string option \<Rightarrow> request" where
  "post path body = \<lparr>Method = ''POST'', Path = path, Decoded = body\<rparr>"

text \<open>
  What the slug derivation needs of the Unicode lowering \<open>ul\<close>: its result holds no ASCII
  capital letter (Go's \<open>unicode.ToLower\<close> never produces one).
\<close>

definition no_upper_output :: "(string \<Rightarrow> string) \<Rightarrow> bool" where
  "no_upper_output ul = (\<forall>t. list_all (\<lambda>c. \<not> is_upper c) (ul t))"

text \<open>
  The file name, inside the pages directory, that the page viewer derives from a request
  path: the base name of the slug, and nothing for a slug of slashes only.
\<close>

definition leaf_of :: "string \<Rightarrow> string" where
  "leaf_of path = (if safeSlug_of path = ''/'' then [] else safeSlug_of path)"

text \<open>The video ID charset: letters, digits, hyphen, underscore.\<close>

definition spec_id_chars :: "char set" where
  "spec_id_chars = set lower_chars \<union> set upper_chars \<union> set digit_chars \<union> {CHR ''-'', CHR ''_''}"

definition starts_id :: "string \<Rightarrow> bool" where
  \<comment> \<open>the text begins with a character of the video ID charset\<close>
  "starts_id s = (case s of [] \<Rightarrow> False | c # rest \<Rightarrow> idChar c)"

section \<open>Character classes\<close>

lemma of_char_image_mem: "(of_char c :: nat) \<in> of_char ` S \<Longrightarrow> c \<in> S"
  by auto

lemma is_lower_iff: "is_lower c \<longleftrightarrow> c \<in> set lower_chars"
proof
  assume "is_lower c"
  then have "97 \<le> (of_char c :: nat)" "(of_char c :: nat) \<le> 122"
    by (simp_all add: is_lower_def in_range_def)
  then have "(of_char c :: nat) \<in> of_char ` set lower_chars"
    unfolding lower_chars_def by simp arith
  then show "c \<in> set lower_chars"
    by (rule of_char_image_mem)
next
  assume "c \<in> set lower_chars"
  then show "is_lower c"
    unfolding lower_chars_def is_lower_def in_range_def by auto
qed

lemma is_upper_iff: "is_upper c \<longleftrightarrow> c \<in> set upper_chars"
proof
  assume "is_upper c"
  then have "65 \<le> (of_char c :: nat)" "(of_char c :: nat) \<le> 90"
    by (simp_all add: is_upper_def in_range_def)
  then have "(of_char c :: nat) \<in> of_char ` set upper_chars"
    unfolding upper_chars_def by simp arith
  then show "c \<in> set upper_chars"
    by (rule of_char_image_mem)
next
  assume "c \<in> set upper_chars"
  then show "is_upper c"
    unfolding upper_chars_def is_upper_def in_range_def by auto
qed

lemma is_digit_iff: "is_digit c \<longleftrightarrow> c \<in> set digit_chars"
proof
  assume "is_digit c"
  then have "48 \<le> (of_char c :: nat)" "(of_char c :: nat) \<le> 57"
    by (simp_all add: is_digit_def in_range_def)
  then have "(of_char c :: nat) \<in> of_char ` set digit_chars"
    unfolding digit_chars_def by simp arith
  then show "c \<in> set digit_chars"
    by (rule of_char_image_mem)
next
  assume "c \<in> set digit_chars"
  then show "is_digit c"
    unfolding digit_chars_def is_digit_def in_range_def by auto
qed

lemma illegalChar_iff: "illegalChar c \<longleftrightarrow> c \<notin> spec_name_chars"
  by (auto simp: illegalChar_def spec_name_chars_def is_lower_iff is_digit_iff)

lemma MatchString_iff: "illegalCharPattern_MatchString s \<longleftrightarrow> (\<exists>c \<in> set s. illegalChar c)"
  by (induction s) auto

lemma charchecker_None_iff: "charchecker name = None \<longleftrightarrow> set name \<subseteq> spec_name_chars"
  by (auto simp: charchecker_def MatchString_iff illegalChar_iff)

section \<open>Name validation\<close>

text \<open>
  C6. Name validation raises InvalidName if and only if the name contains a character
  outside \<open>[a-z0-9_-]\<close>: \<open>charchecker\<close> returns an error exactly for the names with a
  character that is not a lowercase letter, a digit, an underscore or a hyphen, and
  \<open>createPageHandler\<close> answers a decoded POST request with its bad-name rejection exactly
  for those names. (The empty name passes \<open>charchecker\<close>; the handler refuses it in a
  separate step, with the message "Page name is required".)
\<close>

theorem charchecker_invalid_iff:
  "(charchecker name \<noteq> None \<longleftrightarrow> (\<exists>c \<in> set name. c \<notin> spec_name_chars)) \<and>
   (createPageHandler ul s (post path (Some name)) =
      (s, HttpError 400 ''Bad name found, try again. Cannot use symbols, try words only.'')
    \<longleftrightarrow> (\<exists>c \<in> set name. c \<notin> spec_name_chars))"
proof -
  have a: "charchecker name \<noteq> None \<longleftrightarrow> (\<exists>c \<in> set name. c \<notin> spec_name_chars)"
    using charchecker_None_iff [of name] by auto
  have b: "createPageHandler ul s (post path (Some name)) =
      (s, HttpError 400 ''Bad name found, try again. Cannot use symbols, try words only.'')
    \<longleftrightarrow> charchecker name \<noteq> None"
    by (simp add: createPageHandler_def post_def Let_def split: sum.split)
  show ?thesis using a b by simp
qed

theorem charchecker_invalid_iff_witness:
  "charchecker ''my_page-1'' = None \<and> charchecker ''My Page'' \<noteq> None"
  using charchecker_invalid_iff [of "''my_page-1''" id empty_fs "''/create''"]
    charchecker_invalid_iff [of "''My Page''" id empty_fs "''/create''"]
  by (simp add: charchecker_def illegalChar_def is_lower_def is_digit_def in_range_def)

section \<open>Slug derivation\<close>

lemma filter_dropWhile_not: "filter (\<lambda>c. \<not> P c) (dropWhile P cs) = filter (\<lambda>c. \<not> P c) cs"
  by (induction cs) auto

lemma slugRegex_delete_filter: "slugRegex_delete s = filter (\<lambda>c. \<not> slugBad c) s"
  by (induction s rule: slugRegex_delete.induct) (auto simp: filter_dropWhile_not)

lemma lower_not_upper: "is_lower c \<Longrightarrow> \<not> is_upper c"
  by (auto simp: is_lower_def is_upper_def in_range_def)

lemma digit_not_upper: "is_digit c \<Longrightarrow> \<not> is_upper c"
  by (auto simp: is_digit_def is_upper_def in_range_def)

lemma hyphen_not_upper: "\<not> is_upper CHR ''-''"
  by (simp add: is_upper_def in_range_def)

lemma space_slugBad: "slugBad CHR '' ''"
  by (simp add: slugBad_def is_lower_def is_upper_def is_digit_def in_range_def)

lemma slug_char_ascii: "c \<in> spec_slug_chars \<Longrightarrow> is_ascii c"
  by (auto simp: spec_slug_chars_def is_ascii_def is_lower_iff [symmetric] is_digit_iff [symmetric]
      is_lower_def is_digit_def in_range_def)

lemma slug_char_not_upper: "c \<in> spec_slug_chars \<Longrightarrow> \<not> is_upper c"
  by (auto simp: spec_slug_chars_def is_lower_iff [symmetric] is_digit_iff [symmetric]
      lower_not_upper digit_not_upper hyphen_not_upper)

lemma slug_char_not_bad: "c \<in> spec_slug_chars \<Longrightarrow> \<not> slugBad c"
  by (auto simp: spec_slug_chars_def slugBad_def is_lower_iff [symmetric] is_digit_iff [symmetric])

lemma slug_char_not_space: "c \<in> spec_slug_chars \<Longrightarrow> c \<noteq> CHR '' ''"
  using slug_char_not_bad space_slugBad by blast

lemma not_bad_not_upper: "\<not> slugBad c \<Longrightarrow> \<not> is_upper c \<Longrightarrow> c \<in> spec_slug_chars"
  by (auto simp: spec_slug_chars_def slugBad_def is_lower_iff [symmetric] is_digit_iff [symmetric])

lemma ascii_lower_not_upper: "\<not> is_upper (ascii_lower c)"
proof (cases "is_upper c")
  case True
  then have r: "65 \<le> (of_char c :: nat)" "(of_char c :: nat) \<le> 90"
    by (simp_all add: is_upper_def in_range_def)
  then have "(of_char (char_of ((of_char c :: nat) + 32)) :: nat) = of_char c + 32"
    by simp
  with r True show ?thesis
    by (simp add: ascii_lower_def is_upper_def in_range_def)
next
  case False
  then show ?thesis by (simp add: ascii_lower_def)
qed

lemma ToLower_not_upper:
  assumes "no_upper_output ul"
  shows "c \<in> set (strings_ToLower ul s) \<Longrightarrow> \<not> is_upper c"
  using assms by (auto simp: strings_ToLower_def no_upper_output_def list_all_iff ascii_lower_not_upper split: if_splits)

lemma replace_spaces_not_upper: "\<forall>c \<in> set s. \<not> is_upper c \<Longrightarrow> \<forall>c \<in> set (replace_spaces s). \<not> is_upper c"
  by (auto simp: replace_spaces_def hyphen_not_upper)

lemma untitled_slug: "set ''untitled'' \<subseteq> spec_slug_chars"
  by (simp add: spec_slug_chars_def lower_chars_def)

lemma sanitize_slug_chars:
  assumes "no_upper_output ul"
  shows "set (sanitize ul x) \<subseteq> spec_slug_chars \<and> sanitize ul x \<noteq> []"
proof -
  let ?t = "replace_spaces (strings_ToLower ul x)"
  have "\<forall>c \<in> set (strings_ToLower ul x). \<not> is_upper c"
    using ToLower_not_upper [OF assms] by blast
  then have nu: "\<forall>c \<in> set ?t. \<not> is_upper c"
    by (rule replace_spaces_not_upper)
  have "set (slugRegex_delete ?t) \<subseteq> spec_slug_chars"
    using nu by (auto simp: slugRegex_delete_filter not_bad_not_upper)
  then show ?thesis
    using untitled_slug by (auto simp: sanitize_def Let_def)
qed

lemma sanitize_fixpoint:
  assumes "set r \<subseteq> spec_slug_chars" "r \<noteq> []"
  shows "sanitize ul r = r"
proof -
  have a: "list_all is_ascii r"
    using assms(1) by (auto simp: list_all_iff slug_char_ascii)
  have "map ascii_lower r = r"
    using assms(1) by (intro map_idI) (auto simp: ascii_lower_def slug_char_not_upper)
  with a have l: "strings_ToLower ul r = r"
    by (simp add: strings_ToLower_def)
  have s: "replace_spaces r = r"
    unfolding replace_spaces_def using assms(1) by (auto intro!: map_idI simp: slug_char_not_space)
  have d: "slugRegex_delete r = r"
    using assms(1) by (auto simp: slugRegex_delete_filter filter_id_conv slug_char_not_bad)
  show ?thesis
    using assms(2) by (simp add: sanitize_def l s d)
qed

text \<open>
  C9. Slug derivation (lowercase, spaces to hyphens, strip what is outside the class, fall
  back to \<open>untitled\<close>) is idempotent: for every input \<open>x\<close>, sanitizing the slug of
  \<open>x\<close> again gives the same slug, and the slug consists of characters of \<open>[a-z0-9-]\<close>.
  The Unicode lowering of non-ASCII input is a parameter that yields no ASCII capital.
\<close>

theorem sanitize_idempotent:
  assumes "no_upper_output ul"
  shows "sanitize ul (sanitize ul x) = sanitize ul x \<and> set (sanitize ul x) \<subseteq> spec_slug_chars"
  using sanitize_slug_chars [OF assms, of x] sanitize_fixpoint by blast

theorem sanitize_idempotent_witness:
  "sanitize (map ascii_lower) (sanitize (map ascii_lower) ''My New Page!'') = ''my-new-page'' \<and>
   sanitize (map ascii_lower) ''My New Page!'' = ''my-new-page''"
proof -
  have h: "no_upper_output (map ascii_lower)"
    by (auto simp: no_upper_output_def list_all_iff ascii_lower_not_upper)
  have v: "sanitize (map ascii_lower) ''My New Page!'' = ''my-new-page''"
    by (simp add: sanitize_def strings_ToLower_def replace_spaces_def ascii_lower_def is_ascii_def
        slugBad_def is_upper_def is_lower_def is_digit_def in_range_def char_of_def bit_Suc_0_iff)
  show ?thesis
    using sanitize_idempotent [OF h, where x = "''My New Page!''"] v by simp
qed

section \<open>File names of the page viewer\<close>

lemma clean_loop_elem:
  assumes "CHR ''/'' \<notin> set n" "n \<noteq> []" "n \<noteq> ''.''" "n \<noteq> ''..''" "out \<noteq> []"
  shows "clean_loop False n out d = rev n @ CHR ''/'' # out"
proof -
  from assms(2) obtain c r where n: "n = c # r" by (cases n) auto
  have c: "c \<noteq> CHR ''/''" and r: "CHR ''/'' \<notin> set r" using assms(1) n by auto
  have e: "at_elem_end r \<longleftrightarrow> r = []"
    using r by (cases r) (auto simp: at_elem_end_def)
  have e2: "r \<noteq> [] \<Longrightarrow> at_elem_end (tl r) \<longleftrightarrow> tl r = []"
    using r by (cases r; cases "tl r") (auto simp: at_elem_end_def)
  have dot: "\<not> (c = CHR ''.'' \<and> at_elem_end r)"
    using assms(3) n e by auto
  have dotdot: "\<not> (c = CHR ''.'' \<and> r \<noteq> [] \<and> hd r = CHR ''.'' \<and> at_elem_end (tl r))"
  proof
    assume a: "c = CHR ''.'' \<and> r \<noteq> [] \<and> hd r = CHR ''.'' \<and> at_elem_end (tl r)"
    then have "tl r = []" using e2 by blast
    with a have "r = ''.''" by (cases r) auto
    with a n assms(4) show False by simp
  qed
  have tw: "takeWhile (\<lambda>x. x \<noteq> CHR ''/'') (c # r) = c # r"
    using c r by auto
  have dw: "dropWhile (\<lambda>x. x \<noteq> CHR ''/'') r = []"
    using r by auto
  have "clean_loop False (c # r) out d =
      clean_loop False [] (rev (c # r) @ CHR ''/'' # out) d"
    by (subst clean_loop.simps(2))
       (simp only: c dot dotdot if_False if_True Let_def tw dw assms(5) simp_thms)
  then show ?thesis
    unfolding n by simp
qed


lemma Join_pages:
  assumes "CHR ''/'' \<notin> set n" "n \<noteq> []" "n \<noteq> ''.''" "n \<noteq> ''..''"
  shows "filepath_Join ''pages'' n = ''pages/'' @ n"
proof -
  have "clean_loop False (''pages/'' @ n) [] 0 = clean_loop False n ''segap'' 0"
    by (simp add: Let_def)
  also have "\<dots> = rev n @ CHR ''/'' # ''segap''"
    by (rule clean_loop_elem) (use assms in auto)
  finally show ?thesis
    by (simp add: filepath_Join_def filepath_Clean_def Let_def)
qed


lemma Join_pages_ext:
  assumes "CHR ''/'' \<notin> set b" "CHR ''/'' \<notin> set ext" "length ext \<ge> 3"
  shows "filepath_Join ''pages'' (b @ ext) = ''pages/'' @ b @ ext"
proof (rule Join_pages)
  show "CHR ''/'' \<notin> set (b @ ext)" using assms by simp
  show "b @ ext \<noteq> []" using assms by auto
  have l: "length (b @ ext) \<ge> 3" using assms by simp
  show "b @ ext \<noteq> ''.''"
  proof
    assume e: "b @ ext = ''.''"
    have "length (b @ ext) = length ''.''" by (simp only: e)
    with l show False by simp
  qed
  show "b @ ext \<noteq> ''..''"
  proof
    assume e: "b @ ext = ''..''"
    have "length (b @ ext) = length ''..''" by (simp only: e)
    with l show False by simp
  qed
qed

lemma Join_pages_slash:
  assumes "CHR ''/'' \<notin> set ext" "length ext \<ge> 3"
  shows "filepath_Join ''pages'' (''/'' @ ext) = ''pages/'' @ ext"
proof -
  have n: "ext \<noteq> []" "ext \<noteq> ''.''" "ext \<noteq> ''..''" using assms(2) by auto
  have "clean_loop False (''pages//'' @ ext) [] 0 = clean_loop False ext ''segap'' 0"
    by (simp add: Let_def)
  also have "\<dots> = rev ext @ CHR ''/'' # ''segap''"
    by (rule clean_loop_elem) (use assms n in auto)
  finally show ?thesis
    by (simp add: filepath_Join_def filepath_Clean_def Let_def)
qed

lemma Base_cases:
  "filepath_Base p = ''/'' \<or> (CHR ''/'' \<notin> set (filepath_Base p) \<and> filepath_Base p \<noteq> [])"
proof (cases "p = []")
  case True
  then show ?thesis by (simp add: filepath_Base_def)
next
  case False
  let ?q = "rev (dropWhile (\<lambda>c. c = CHR ''/'') (rev p))"
  let ?e = "rev (takeWhile (\<lambda>c. c \<noteq> CHR ''/'') (rev ?q))"
  have "CHR ''/'' \<notin> set ?e"
    by (auto dest: set_takeWhileD)
  then show ?thesis
    using False by (auto simp: filepath_Base_def Let_def)
qed

lemma Base_noslash:
  assumes "CHR ''/'' \<notin> set b" "b \<noteq> []"
  shows "filepath_Base b = b"
proof -
  have dw: "dropWhile (\<lambda>c. c = CHR ''/'') (rev b) = rev b"
    using assms by (cases "rev b") auto
  have tw: "takeWhile (\<lambda>c. c \<noteq> CHR ''/'') (rev b) = rev b"
    using assms by auto
  show ?thesis
    by (simp add: filepath_Base_def Let_def dw tw assms(2))
qed

lemma Split_noslash: "sep \<notin> set a \<Longrightarrow> strings_Split a sep = [a]"
  by (induction a) auto

lemma Split_segment: "sep \<notin> set a \<Longrightarrow> strings_Split (a @ sep # rest) sep = a # strings_Split rest sep"
  by (induction a) auto


lemma leaf_noslash: "CHR ''/'' \<notin> set (leaf_of path)"
  using Base_cases [of "drop (length ''/page/'') path"]
  by (auto simp: leaf_of_def safeSlug_of_def)

lemma page_filename_leaf: "page_filename path = ''pages/'' @ leaf_of path @ ''.txt''"
proof (cases "safeSlug_of path = ''/''")
  case True
  then show ?thesis
    using Join_pages_slash [of "''.txt''"] by (simp add: page_filename_def leaf_of_def)
next
  case False
  then have "CHR ''/'' \<notin> set (safeSlug_of path)"
    using Base_cases [of "drop (length ''/page/'') path"] by (auto simp: safeSlug_of_def)
  then show ?thesis
    using False Join_pages_ext [of "safeSlug_of path" "''.txt''"]
    by (simp add: page_filename_def leaf_of_def)
qed

lemma youtube_filename_leaf: "youtube_filename path = ''pages/'' @ leaf_of path @ ''.youtube.txt''"
proof (cases "safeSlug_of path = ''/''")
  case True
  then show ?thesis
    using Join_pages_slash [of "''.youtube.txt''"] by (simp add: youtube_filename_def leaf_of_def)
next
  case False
  then have "CHR ''/'' \<notin> set (safeSlug_of path)"
    using Base_cases [of "drop (length ''/page/'') path"] by (auto simp: safeSlug_of_def)
  then show ?thesis
    using False Join_pages_ext [of "safeSlug_of path" "''.youtube.txt''"]
    by (simp add: youtube_filename_def leaf_of_def)
qed

lemma Split_pages_leaf:
  "CHR ''/'' \<notin> set n \<Longrightarrow> strings_Split (''pages/'' @ n) CHR ''/'' = [''pages'', n]"
  using Split_segment [of "CHR ''/''" "''pages''" n] by (simp add: Split_noslash)

text \<open>
  C1. For every request path of the page viewer the slug is cut to a base name before any
  file access: both file names the handler opens are \<open>pages/\<close> followed by one element
  without a separator, so they split into exactly the directory \<open>pages\<close> and a file name
  with the suffix, no element is \<open>..\<close>, and the response depends on the file system
  only through these two files.
\<close>

theorem pageView_no_traversal:
  "CHR ''/'' \<notin> set (leaf_of path) \<and>
   page_filename path = ''pages/'' @ leaf_of path @ ''.txt'' \<and>
   youtube_filename path = ''pages/'' @ leaf_of path @ ''.youtube.txt'' \<and>
   strings_Split (page_filename path) CHR ''/'' = [''pages'', leaf_of path @ ''.txt''] \<and>
   strings_Split (youtube_filename path) CHR ''/'' = [''pages'', leaf_of path @ ''.youtube.txt''] \<and>
   ''..'' \<notin> set (strings_Split (page_filename path) CHR ''/'') \<and>
   ''..'' \<notin> set (strings_Split (youtube_filename path) CHR ''/'') \<and>
   (files s (page_filename (Path r)) = files s' (page_filename (Path r)) \<and>
    files s (youtube_filename (Path r)) = files s' (youtube_filename (Path r)) \<longrightarrow>
    pageViewHandler year s r = pageViewHandler year s' r)"
proof -
  have n: "CHR ''/'' \<notin> set (leaf_of path)" by (rule leaf_noslash)
  have a: "strings_Split (page_filename path) CHR ''/'' = [''pages'', leaf_of path @ ''.txt'']"
    using n Split_pages_leaf [of "leaf_of path @ ''.txt''"] by (simp add: page_filename_leaf)
  have b: "strings_Split (youtube_filename path) CHR ''/'' = [''pages'', leaf_of path @ ''.youtube.txt'']"
    using n Split_pages_leaf [of "leaf_of path @ ''.youtube.txt''"]
    by (simp add: youtube_filename_leaf)
  have c: "files s (page_filename (Path r)) = files s' (page_filename (Path r)) \<and>
    files s (youtube_filename (Path r)) = files s' (youtube_filename (Path r)) \<longrightarrow>
    pageViewHandler year s r = pageViewHandler year s' r"
  proof
    assume h: "files s (page_filename (Path r)) = files s' (page_filename (Path r)) \<and>
      files s (youtube_filename (Path r)) = files s' (youtube_filename (Path r))"
    then have "read_embeds s (youtube_filename (Path r)) = read_embeds s' (youtube_filename (Path r))"
      by (simp add: read_embeds_def os_ReadFile_def)
    with h show "pageViewHandler year s r = pageViewHandler year s' r"
      by (simp add: pageViewHandler_def os_ReadFile_def Let_def split: option.split)
  qed
  have d1: "leaf_of path @ ''.txt'' \<noteq> ''..''" 
  proof
    assume "leaf_of path @ ''.txt'' = ''..''"
    then have "length (leaf_of path @ ''.txt'') = length ''..''" by simp
    then show False by simp
  qed
  have d2: "leaf_of path @ ''.youtube.txt'' \<noteq> ''..''"
  proof
    assume "leaf_of path @ ''.youtube.txt'' = ''..''"
    then have "length (leaf_of path @ ''.youtube.txt'') = length ''..''" by simp
    then show False by simp
  qed
  show ?thesis
    using n a b c d1 d2 page_filename_leaf youtube_filename_leaf by simp
qed



lemma leaf_of_passwd: "leaf_of ''/page/../../etc/passwd'' = ''passwd''"
  by (simp add: leaf_of_def safeSlug_of_def filepath_Base_def)

lemma leaf_of_dotdot: "leaf_of ''/page/..'' = ''..''"
  by (simp add: leaf_of_def safeSlug_of_def filepath_Base_def)

lemma leaf_of_slashes: "leaf_of ''/page//'' = []"
  by (simp add: leaf_of_def safeSlug_of_def filepath_Base_def)

theorem pageView_no_traversal_witness:
  "page_filename ''/page/../../etc/passwd'' = ''pages/passwd.txt'' \<and>
   youtube_filename ''/page/../../etc/passwd'' = ''pages/passwd.youtube.txt'' \<and>
   page_filename ''/page/..'' = ''pages/...txt'' \<and>
   page_filename ''/page//'' = ''pages/.txt'' \<and>
   pageViewHandler 2024 empty_fs \<lparr>Method = ''GET'', Path = ''/page/../../etc/passwd'', Decoded = None\<rparr>
     = pageViewHandler 2024 (empty_fs\<lparr>files := [''/etc/passwd'' \<mapsto> ''root'']\<rparr>)
         \<lparr>Method = ''GET'', Path = ''/page/../../etc/passwd'', Decoded = None\<rparr>"
proof -
  let ?r = "\<lparr>Method = ''GET'', Path = ''/page/../../etc/passwd'', Decoded = None\<rparr>"
  let ?s' = "empty_fs\<lparr>files := [''/etc/passwd'' \<mapsto> ''root'']\<rparr>"
  note t = pageView_no_traversal [of "''/page/../../etc/passwd''" empty_fs ?r ?s' 2024]
  have a: "page_filename ''/page/../../etc/passwd'' = ''pages/passwd.txt''"
    and b: "youtube_filename ''/page/../../etc/passwd'' = ''pages/passwd.youtube.txt''"
    using t by (simp_all only: leaf_of_passwd append.simps)
  have c: "page_filename ''/page/..'' = ''pages/...txt''"
    using pageView_no_traversal [of "''/page/..''"] by (simp only: leaf_of_dotdot append.simps)
  have d: "page_filename ''/page//'' = ''pages/.txt''"
    using pageView_no_traversal [of "''/page//''"] by (simp only: leaf_of_slashes append.simps)
  have "files empty_fs (page_filename (Path ?r)) = files ?s' (page_filename (Path ?r)) \<and>
    files empty_fs (youtube_filename (Path ?r)) = files ?s' (youtube_filename (Path ?r))"
    by (simp add: a b empty_fs_def)
  with t have e: "pageViewHandler 2024 empty_fs ?r = pageViewHandler 2024 ?s' ?r"
    by blast
  show ?thesis using a b c d e by blast
qed

section \<open>Page creation\<close>

lemma charchecker_my_new_page: "charchecker ''My New Page!'' \<noteq> None"
  by (simp add: charchecker_def illegalChar_def is_lower_def is_digit_def in_range_def)

lemma charchecker_slug_name: "charchecker ''my-new-page'' = None"
  by (simp add: charchecker_def illegalChar_def is_lower_def is_digit_def in_range_def)

lemma sanitize_my_new_page: "sanitize ul ''My New Page!'' = ''my-new-page''"
  by (simp add: sanitize_def strings_ToLower_def replace_spaces_def ascii_lower_def is_ascii_def
      slugBad_def is_upper_def is_lower_def is_digit_def in_range_def char_of_def bit_Suc_0_iff)

lemma sanitize_slug_name: "sanitize ul ''my-new-page'' = ''my-new-page''"
  by (simp add: sanitize_def strings_ToLower_def replace_spaces_def ascii_lower_def is_ascii_def
      slugBad_def is_upper_def is_lower_def is_digit_def in_range_def)

lemma Join_my_new_page: "filepath_Join ''pages'' ''my-new-page.txt'' = ''pages/my-new-page.txt''"
  using Join_pages_ext [of "''my-new-page''" "''.txt''"] by simp

text \<open>
  C5 as stated fails: on an empty store the request to create \<open>My New Page!\<close> gets
  the bad-name rejection and the store is unchanged.
\<close>

theorem create_my_new_page_counterexample:
  "createPageHandler id empty_fs (post ''/create'' (Some ''My New Page!'')) =
     (empty_fs, HttpError 400 ''Bad name found, try again. Cannot use symbols, try words only.'')"
  using charchecker_my_new_page by (simp add: createPageHandler_def post_def)

text \<open>
  C5 (as amended). Calling create with the name \<open>My New Page!\<close> is rejected as an invalid
  name and nothing is written; the slug derivation by itself maps that name to
  \<open>my-new-page\<close>; and create with the legal name \<open>my-new-page\<close>, when no such page exists
  and the store is writable, writes a body that contains the name and redirects to the slug.
\<close>

theorem create_my_new_page_amended:
  "createPageHandler ul s (post path (Some ''My New Page!'')) =
     (s, HttpError 400 ''Bad name found, try again. Cannot use symbols, try words only.'') \<and>
   sanitize ul ''My New Page!'' = ''my-new-page'' \<and>
   (files s ''pages/my-new-page.txt'' = None \<and> ''pages/my-new-page.txt'' \<notin> denied s \<and> \<not> full s
    \<longrightarrow> createPageHandler ul s (post path (Some ''my-new-page'')) =
          (s\<lparr>files := (files s)(''pages/my-new-page.txt'' \<mapsto>
                ''This is the new page for **my-new-page**'')\<rparr>,
           Redirect ''/page/my-new-page'' 303))"
proof -
  have a: "createPageHandler ul s (post path (Some ''My New Page!'')) =
     (s, HttpError 400 ''Bad name found, try again. Cannot use symbols, try words only.'')"
    using charchecker_my_new_page by (simp add: createPageHandler_def post_def)
  have b: "files s ''pages/my-new-page.txt'' = None \<and> ''pages/my-new-page.txt'' \<notin> denied s \<and> \<not> full s
    \<longrightarrow> createPageHandler ul s (post path (Some ''my-new-page'')) =
          (s\<lparr>files := (files s)(''pages/my-new-page.txt'' \<mapsto>
                ''This is the new page for **my-new-page**'')\<rparr>,
           Redirect ''/page/my-new-page'' 303)"
    by (simp add: createPageHandler_def post_def charchecker_slug_name sanitize_slug_name
        Join_my_new_page os_Stat_def os_WriteFile_def)
  show ?thesis using a b sanitize_my_new_page by blast
qed

theorem create_my_new_page_amended_witness:
  "createPageHandler id empty_fs (post ''/create'' (Some ''my-new-page'')) =
     (empty_fs\<lparr>files := [''pages/my-new-page.txt'' \<mapsto> ''This is the new page for **my-new-page**'']\<rparr>,
      Redirect ''/page/my-new-page'' 303)"
  using create_my_new_page_amended [of id empty_fs "''/create''"]
  by (simp add: empty_fs_def)

section \<open>The page list\<close>

lemma page_names_acc:
  "page_names fl acc = acc @ map (\<lambda>f. strings_TrimSuffix (Name f) ''.txt'')
     (filter (\<lambda>f. \<not> IsDir f \<and> strings_HasSuffix (Name f) ''.txt'') fl)"
  by (induction fl arbitrary: acc) auto

lemma HasSuffix_append: "strings_HasSuffix (a @ suf) suf"
  by (simp add: strings_HasSuffix_def)

lemma TrimSuffix_append: "strings_TrimSuffix (a @ suf) suf = a"
  by (simp add: strings_TrimSuffix_def strings_HasSuffix_def)

lemma page_names_member:
  assumes "\<lparr>Name = n @ ''.txt'', IsDir = False\<rparr> \<in> set fl"
  shows "n \<in> set (page_names fl [])"
proof -
  let ?f = "\<lparr>Name = n @ ''.txt'', IsDir = False\<rparr>"
  have "?f \<in> set (filter (\<lambda>f. \<not> IsDir f \<and> strings_HasSuffix (Name f) ''.txt'') fl)"
    using assms HasSuffix_append [of n "''.txt''"] by simp
  then have "strings_TrimSuffix (Name ?f) ''.txt'' \<in> set (page_names fl [])"
    unfolding page_names_acc by (simp only: append_Nil set_map) (rule imageI)
  then show ?thesis
    using TrimSuffix_append [of n "''.txt''"] by simp
qed

text \<open>
  C10. The page list keeps every directory entry that is not a directory and whose name
  ends in \<open>.txt\<close>, and strips that suffix; a link file \<open>slug.youtube.txt\<close> passes this
  filter too, so for a page \<open>slug\<close> with a link file the list holds both \<open>slug\<close> and
  \<open>slug.youtube\<close>.
\<close>

theorem index_lists_link_files:
  assumes "\<lparr>Name = slug @ ''.txt'', IsDir = False\<rparr> \<in> set fl"
    and "\<lparr>Name = slug @ ''.youtube.txt'', IsDir = False\<rparr> \<in> set fl"
  shows "indexHandler (Inr fl) = Rendered ''index.html'' (PageNames (page_names fl [])) \<and>
    slug \<in> set (page_names fl []) \<and> slug @ ''.youtube'' \<in> set (page_names fl [])"
  using page_names_member [OF assms(1)] page_names_member [of "slug @ ''.youtube''" fl] assms(2)
  by (simp add: indexHandler_def)

theorem index_lists_link_files_witness:
  "indexHandler (Inr [\<lparr>Name = ''a.txt'', IsDir = False\<rparr>, \<lparr>Name = ''a.youtube.txt'', IsDir = False\<rparr>,
      \<lparr>Name = ''a.votes.json'', IsDir = False\<rparr>]) =
     Rendered ''index.html'' (PageNames [''a'', ''a.youtube''])"
  using index_lists_link_files [of "''a''" "[\<lparr>Name = ''a.txt'', IsDir = False\<rparr>,
      \<lparr>Name = ''a.youtube.txt'', IsDir = False\<rparr>, \<lparr>Name = ''a.votes.json'', IsDir = False\<rparr>]"]
  by (simp add: strings_HasSuffix_def strings_TrimSuffix_def)

section \<open>The extractor\<close>

lemma idChar_iff: "idChar c \<longleftrightarrow> c \<in> spec_id_chars"
  by (auto simp: idChar_def spec_id_chars_def is_lower_iff is_upper_iff is_digit_iff)

lemma match_videoID_None_iff: "match_videoID s = None \<longleftrightarrow> \<not> starts_id s"
  by (cases s) (auto simp: match_videoID_def starts_id_def)

lemma match_videoID_Some:
  "match_videoID s = Some (v, r) \<Longrightarrow> v \<noteq> [] \<and> list_all idChar v \<and> s = v @ r"
  by (auto simp: match_videoID_def list_all_iff dest: set_takeWhileD split: if_splits)

lemma match_videoID_all:
  assumes "vid \<noteq> []" "list_all idChar vid"
  shows "match_videoID vid = Some (vid, [])"
proof -
  have tw: "takeWhile idChar vid = vid" and dw: "dropWhile idChar vid = []"
    using assms(2) by (auto simp: list_all_iff)
  show ?thesis by (simp add: match_videoID_def tw dw assms(1))
qed

lemma strip_prefix_Some: "strip_prefix p s = Some r \<longleftrightarrow> s = p @ r"
proof
  assume "strip_prefix p s = Some r"
  then have "take (length p) s = p" "r = drop (length p) s"
    by (auto simp: strip_prefix_def split: if_splits)
  then show "s = p @ r"
    by (metis append_take_drop_id)
next
  assume "s = p @ r"
  then show "strip_prefix p s = Some r" by (simp add: strip_prefix_def)
qed

lemma strip_prefix_append:
  "strip_prefix (a @ b) s = Option.bind (strip_prefix a s) (strip_prefix b)"
proof (cases "strip_prefix a s")
  case None
  then have "\<forall>r. s \<noteq> a @ r" using strip_prefix_Some [of a s] by auto
  then have "strip_prefix (a @ b) s = None"
    using strip_prefix_Some [of "a @ b" s] by (cases "strip_prefix (a @ b) s") auto
  with None show ?thesis by simp
next
  case (Some r)
  then have s: "s = a @ r" by (simp add: strip_prefix_Some)
  show ?thesis
    using Some by (simp add: s strip_prefix_def)
qed


lemma strip_prefix_drop: "strip_prefix p s = Some r \<Longrightarrow> r = drop (length p) s"
  by (auto simp: strip_prefix_def split: if_splits)

lemma orElse_None_iff: "orElse a b = None \<longleftrightarrow> a = None \<and> b = None"
  by (cases a) (auto simp: orElse_def)

lemma orElse_Some: "orElse a b = Some x \<Longrightarrow> a = Some x \<or> b = Some x"
  by (cases a) (auto simp: orElse_def)

lemma bind_videoID_None_iff:
  "Option.bind (strip_prefix p s) match_videoID = None \<longleftrightarrow>
     \<not> (case strip_prefix p s of Some (c # rest) \<Rightarrow> idChar c | _ \<Rightarrow> False)"
  by (cases "strip_prefix p s")
     (auto simp: match_videoID_None_iff starts_id_def split: list.splits)

lemma host_watch: "''youtube.com/watch?v='' = ''youtube.com/'' @ ''watch?v=''"
  by simp

lemma host_embed: "''youtube.com/embed/'' = ''youtube.com/'' @ ''embed/''"
  by simp

lemma match_host_alt:
  "match_host s =
     orElse (orElse (Option.bind (strip_prefix ''youtube.com/watch?v='' s) match_videoID)
                    (Option.bind (strip_prefix ''youtube.com/embed/'' s) match_videoID))
            (Option.bind (strip_prefix ''youtu.be/'' s) match_videoID)"
  unfolding host_watch host_embed strip_prefix_append match_host_def
  by (cases "strip_prefix ''youtube.com/'' s") (simp_all add: orElse_def)

lemma match_host_None_iff: "match_host s = None \<longleftrightarrow> \<not> spec_reference_at s"
  unfolding match_host_alt orElse_None_iff bind_videoID_None_iff
  by (simp add: spec_reference_at_def spec_hosts_def)

lemma match_host_Some:
  "match_host s = Some (v, r) \<Longrightarrow> v \<noteq> [] \<and> list_all idChar v"
  unfolding match_host_alt
  by (auto dest!: orElse_Some match_videoID_Some simp: bind_eq_Some_conv)


lemma match_www_Some:
  assumes "match_www s = Some x"
  shows "\<exists>k. match_host (drop k s) = Some x"
proof -
  from assms have "Option.bind (strip_prefix ''www.'' s) match_host = Some x \<or> match_host s = Some x"
    unfolding match_www_def by (rule orElse_Some)
  then show ?thesis
  proof
    assume "Option.bind (strip_prefix ''www.'' s) match_host = Some x"
    then obtain r where "strip_prefix ''www.'' s = Some r" "match_host r = Some x"
      by (auto simp: bind_eq_Some_conv)
    then show ?thesis using strip_prefix_drop by blast
  next
    assume "match_host s = Some x"
    then have "match_host (drop 0 s) = Some x" by simp
    then show ?thesis by blast
  qed
qed

lemma bind_www_Some:
  assumes "Option.bind (strip_prefix p s) match_www = Some x"
  shows "\<exists>k. match_host (drop k s) = Some x"
proof -
  from assms obtain r where r: "strip_prefix p s = Some r" "match_www r = Some x"
    by (auto simp: bind_eq_Some_conv)
  then obtain k where "match_host (drop k r) = Some x"
    using match_www_Some by blast
  moreover have "r = drop (length p) s" using r(1) by (rule strip_prefix_drop)
  ultimately have "match_host (drop (k + length p) s) = Some x"
    by (simp add: add.commute)
  then show ?thesis by blast
qed

lemma match_scheme_Some:
  assumes "match_scheme s = Some x"
  shows "\<exists>k. match_host (drop k s) = Some x"
proof -
  let ?a = "case strip_prefix ''http'' s of
          None \<Rightarrow> None
        | Some r \<Rightarrow>
            orElse
              (Option.bind (strip_prefix ''s'' r)
                 (\<lambda>r'. Option.bind (strip_prefix ''://'' r') match_www))
              (Option.bind (strip_prefix ''://'' r) match_www)"
  from assms have "?a = Some x \<or> match_www s = Some x"
    unfolding match_scheme_def by (rule orElse_Some)
  then show ?thesis
  proof
    assume a: "?a = Some x"
    then obtain r where r: "strip_prefix ''http'' s = Some r"
      by (cases "strip_prefix ''http'' s") auto
    then have rd: "r = drop (length ''http'') s" by (rule strip_prefix_drop)
    from a r have "Option.bind (strip_prefix ''s'' r)
                 (\<lambda>r'. Option.bind (strip_prefix ''://'' r') match_www) = Some x
        \<or> Option.bind (strip_prefix ''://'' r) match_www = Some x"
      by (auto dest: orElse_Some)
    then have "\<exists>k. match_host (drop k r) = Some x"
    proof
      assume "Option.bind (strip_prefix ''s'' r)
                 (\<lambda>r'. Option.bind (strip_prefix ''://'' r') match_www) = Some x"
      then obtain r' where r': "strip_prefix ''s'' r = Some r'"
          "Option.bind (strip_prefix ''://'' r') match_www = Some x"
        by (auto simp: bind_eq_Some_conv)
      then obtain k where "match_host (drop k r') = Some x"
        using bind_www_Some by blast
      moreover have "r' = drop (length ''s'') r" using r'(1) by (rule strip_prefix_drop)
      ultimately have "match_host (drop (k + length ''s'') r) = Some x"
        by (simp add: add.commute)
      then show ?thesis by blast
    next
      assume "Option.bind (strip_prefix ''://'' r) match_www = Some x"
      then show ?thesis by (rule bind_www_Some)
    qed
    then obtain k where "match_host (drop k r) = Some x" by blast
    with rd have "match_host (drop (k + length ''http'') s) = Some x"
      by (simp add: add.commute)
    then show ?thesis by blast
  next
    assume "match_www s = Some x"
    then show ?thesis by (rule match_www_Some)
  qed
qed

lemma match_scheme_Some_id:
  assumes "match_scheme s = Some (v, r)"
  shows "v \<noteq> [] \<and> list_all idChar v"
  using match_scheme_Some [OF assms] match_host_Some by blast

lemma reference_match_scheme:
  assumes "spec_reference_at s"
  shows "match_scheme s \<noteq> None"
proof -
  have "match_host s \<noteq> None" using assms by (simp add: match_host_None_iff)
  then have "match_www s \<noteq> None" by (simp add: match_www_def orElse_None_iff)
  then show ?thesis by (simp add: match_scheme_def orElse_None_iff)
qed

lemma reference_at_Nil: "\<not> spec_reference_at []"
  by (simp add: spec_reference_at_def spec_hosts_def strip_prefix_def)

lemma reference_drop: "spec_reference_at (drop k s) \<Longrightarrow> spec_has_reference s"
proof (induction s arbitrary: k)
  case Nil
  then show ?case by (simp add: reference_at_Nil)
next
  case (Cons c cs)
  then show ?case by (cases k) auto
qed

lemma match_scheme_reference:
  assumes "match_scheme s = Some x"
  shows "spec_has_reference s"
proof -
  obtain k where "match_host (drop k s) = Some x"
    using match_scheme_Some [OF assms] by blast
  then have "spec_reference_at (drop k s)"
    using match_host_None_iff [of "drop k s"] by auto
  then show ?thesis by (rule reference_drop)
qed

lemma Find_Nil_iff: "youtubeRegex_FindStringSubmatch t = [] \<longleftrightarrow> \<not> spec_has_reference t"
proof (induction t)
  case Nil
  show ?case by simp
next
  case (Cons c cs)
  show ?case
  proof (cases "match_scheme (c # cs)")
    case None
    then have "\<not> spec_reference_at (c # cs)"
      using reference_match_scheme by blast
    with None Cons show ?thesis by simp
  next
    case (Some x)
    then have "spec_has_reference (c # cs)" by (rule match_scheme_reference)
    with Some show ?thesis by (cases x) simp
  qed
qed

lemma Find_result:
  "youtubeRegex_FindStringSubmatch t = [] \<or>
   (\<exists>whole v. youtubeRegex_FindStringSubmatch t = [whole, v] \<and> v \<noteq> [] \<and> list_all idChar v)"
proof (induction t)
  case Nil
  show ?case by simp
next
  case (Cons c cs)
  show ?case
  proof (cases "match_scheme (c # cs)")
    case None
    with Cons show ?thesis by simp
  next
    case (Some x)
    obtain v r where x: "x = (v, r)" by (cases x)
    with Some have "v \<noteq> [] \<and> list_all idChar v" using match_scheme_Some_id by blast
    with Some x show ?thesis by simp
  qed
qed

lemma Find_at_start:
  assumes "s \<noteq> []" "match_scheme s = Some (v, r)"
  shows "youtubeRegex_FindStringSubmatch s = [take (length s - length r) s, v]"
  using assms by (cases s) auto

lemma shapes_list:
  "spec_url_shapes =
     [''youtube.com/watch?v='', ''youtube.com/embed/'', ''youtu.be/'',
      ''www.youtube.com/watch?v='', ''www.youtube.com/embed/'', ''www.youtu.be/'',
      ''http://youtube.com/watch?v='', ''http://youtube.com/embed/'', ''http://youtu.be/'',
      ''http://www.youtube.com/watch?v='', ''http://www.youtube.com/embed/'', ''http://www.youtu.be/'',
      ''https://youtube.com/watch?v='', ''https://youtube.com/embed/'', ''https://youtu.be/'',
      ''https://www.youtube.com/watch?v='', ''https://www.youtube.com/embed/'',
      ''https://www.youtu.be/'']"
  by (simp add: spec_url_shapes_def spec_hosts_def)

lemma host_match:
  assumes "match_videoID vid = Some (vid, [])"
  shows "match_host (''youtube.com/watch?v='' @ vid) = Some (vid, [])"
    and "match_host (''youtube.com/embed/'' @ vid) = Some (vid, [])"
    and "match_host (''youtu.be/'' @ vid) = Some (vid, [])"
  by (simp_all add: match_host_def strip_prefix_def orElse_def assms)


lemma scheme_match:
  assumes "match_videoID vid = Some (vid, [])"
  shows "match_scheme (''youtube.com/watch?v='' @ vid) = Some (vid, [])"
    and "match_scheme (''youtube.com/embed/'' @ vid) = Some (vid, [])"
    and "match_scheme (''youtu.be/'' @ vid) = Some (vid, [])"
    and "match_scheme (''www.youtube.com/watch?v='' @ vid) = Some (vid, [])"
    and "match_scheme (''www.youtube.com/embed/'' @ vid) = Some (vid, [])"
    and "match_scheme (''www.youtu.be/'' @ vid) = Some (vid, [])"
    and "match_scheme (''http://youtube.com/watch?v='' @ vid) = Some (vid, [])"
    and "match_scheme (''http://youtube.com/embed/'' @ vid) = Some (vid, [])"
    and "match_scheme (''http://youtu.be/'' @ vid) = Some (vid, [])"
    and "match_scheme (''http://www.youtube.com/watch?v='' @ vid) = Some (vid, [])"
    and "match_scheme (''http://www.youtube.com/embed/'' @ vid) = Some (vid, [])"
    and "match_scheme (''http://www.youtu.be/'' @ vid) = Some (vid, [])"
    and "match_scheme (''https://youtube.com/watch?v='' @ vid) = Some (vid, [])"
    and "match_scheme (''https://youtube.com/embed/'' @ vid) = Some (vid, [])"
    and "match_scheme (''https://youtu.be/'' @ vid) = Some (vid, [])"
    and "match_scheme (''https://www.youtube.com/watch?v='' @ vid) = Some (vid, [])"
    and "match_scheme (''https://www.youtube.com/embed/'' @ vid) = Some (vid, [])"
    and "match_scheme (''https://www.youtu.be/'' @ vid) = Some (vid, [])"
  by (simp_all add: match_scheme_def match_www_def match_host_def strip_prefix_def orElse_def assms)


lemma shape_match:
  assumes "shape \<in> set spec_url_shapes" "vid \<noteq> []" "list_all idChar vid"
  shows "match_scheme (shape @ vid) = Some (vid, [])"
proof -
  have mv: "match_videoID vid = Some (vid, [])"
    using assms(2,3) by (rule match_videoID_all)
  from assms(1) have "shape \<in> set [''youtube.com/watch?v='', ''youtube.com/embed/'', ''youtu.be/'',
      ''www.youtube.com/watch?v='', ''www.youtube.com/embed/'', ''www.youtu.be/'',
      ''http://youtube.com/watch?v='', ''http://youtube.com/embed/'', ''http://youtu.be/'',
      ''http://www.youtube.com/watch?v='', ''http://www.youtube.com/embed/'', ''http://www.youtu.be/'',
      ''https://youtube.com/watch?v='', ''https://youtube.com/embed/'', ''https://youtu.be/'',
      ''https://www.youtube.com/watch?v='', ''https://www.youtube.com/embed/'',
      ''https://www.youtu.be/'']"
    by (simp only: shapes_list)
  then show ?thesis
    unfolding list.set insert_iff empty_iff
    by (elim disjE FalseE) (simp_all only: scheme_match [OF mv])
qed

lemma extract_Find:
  "extractYouTubeVideoInfo t =
     (case youtubeRegex_FindStringSubmatch t of
        [whole, v] \<Rightarrow> (''https://www.youtube.com/embed/'' @ v, v)
      | _ \<Rightarrow> ([], []))"
  using Find_result [of t] by (auto simp: extractYouTubeVideoInfo_def Let_def)

lemma extract_shape:
  assumes "shape \<in> set spec_url_shapes" "vid \<noteq> []" "list_all idChar vid"
  shows "extractYouTubeVideoInfo (shape @ vid) = (''https://www.youtube.com/embed/'' @ vid, vid)"
proof -
  have "shape @ vid \<noteq> []" using assms(2) by simp
  then have "youtubeRegex_FindStringSubmatch (shape @ vid) =
      [take (length (shape @ vid) - length ([]::string)) (shape @ vid), vid]"
    using shape_match [OF assms] by (rule Find_at_start)
  then show ?thesis by (simp add: extract_Find)
qed

lemma extract_no_reference:
  "\<not> spec_has_reference t \<Longrightarrow> extractYouTubeVideoInfo t = ([], [])"
  using Find_Nil_iff [of t] by (simp add: extract_Find)

lemma extract_reference:
  assumes "spec_has_reference t"
  shows "\<exists>v. v \<noteq> [] \<and> set v \<subseteq> spec_id_chars \<and>
     extractYouTubeVideoInfo t = (''https://www.youtube.com/embed/'' @ v, v)"
proof -
  have "youtubeRegex_FindStringSubmatch t \<noteq> []"
    using assms Find_Nil_iff [of t] by simp
  then obtain whole v where f: "youtubeRegex_FindStringSubmatch t = [whole, v]"
      and v: "v \<noteq> []" "list_all idChar v"
    using Find_result [of t] by auto
  have "set v \<subseteq> spec_id_chars"
    using v(2) by (auto simp: list_all_iff idChar_iff)
  with f v(1) show ?thesis by (simp add: extract_Find)
qed

text \<open>
  C7. For every non-empty video ID over the allowed charset, the extractor applied to any
  supported URL shape carrying that ID (each host form, optionally after \<open>http://\<close> or
  \<open>https://\<close> and \<open>www.\<close>) returns the same canonical embed URL
  \<open>https://www.youtube.com/embed/ID\<close> and the ID; for a text with no recognizable YouTube
  reference it returns the two empty strings; and for any text with a reference it returns
  a canonical embed URL.
\<close>

theorem extract_canonical:
  "(vid \<noteq> [] \<and> set vid \<subseteq> spec_id_chars \<longrightarrow>
      (\<forall>shape \<in> set spec_url_shapes.
         extractYouTubeVideoInfo (shape @ vid) = (''https://www.youtube.com/embed/'' @ vid, vid))) \<and>
   (\<not> spec_has_reference t \<longrightarrow> extractYouTubeVideoInfo t = ([], [])) \<and>
   (spec_has_reference t \<longrightarrow>
      (\<exists>v. v \<noteq> [] \<and> set v \<subseteq> spec_id_chars \<and>
           extractYouTubeVideoInfo t = (''https://www.youtube.com/embed/'' @ v, v)))"
proof -
  have "list_all idChar vid" if "set vid \<subseteq> spec_id_chars"
    using that by (auto simp: list_all_iff idChar_iff)
  then show ?thesis
    using extract_shape extract_no_reference extract_reference by blast
qed

lemma abc123_id: "''abc123'' \<noteq> [] \<and> set ''abc123'' \<subseteq> spec_id_chars"
  by (simp add: spec_id_chars_def lower_chars_def digit_chars_def)

lemma not_a_url: "\<not> spec_has_reference ''not a url''"
  by (simp add: spec_reference_at_def spec_hosts_def strip_prefix_def)

theorem extract_canonical_witness:
  "extractYouTubeVideoInfo ''https://www.youtube.com/watch?v=abc123'' =
     (''https://www.youtube.com/embed/abc123'', ''abc123'') \<and>
   extractYouTubeVideoInfo ''youtu.be/abc123'' =
     (''https://www.youtube.com/embed/abc123'', ''abc123'') \<and>
   extractYouTubeVideoInfo ''not a url'' = ([], [])"
proof -
  note t = extract_canonical [of "''abc123''" "''not a url''"]
  have a: "\<forall>shape \<in> set spec_url_shapes.
         extractYouTubeVideoInfo (shape @ ''abc123'') = (''https://www.youtube.com/embed/'' @ ''abc123'', ''abc123'')"
    using t abc123_id by blast
  have "extractYouTubeVideoInfo (''https://www.youtube.com/watch?v='' @ ''abc123'') =
      (''https://www.youtube.com/embed/'' @ ''abc123'', ''abc123'')"
    using a by (simp only: shapes_list list.set ball_simps)
  moreover have "extractYouTubeVideoInfo (''youtu.be/'' @ ''abc123'') =
      (''https://www.youtube.com/embed/'' @ ''abc123'', ''abc123'')"
    using a by (simp only: shapes_list list.set ball_simps)
  moreover have "extractYouTubeVideoInfo ''not a url'' = ([], [])"
    using t not_a_url by blast
  ultimately show ?thesis by simp
qed

section \<open>The link list\<close>

lemma process_fst: "processYouTubeURL t = fst (extractYouTubeVideoInfo t)"
  by (simp add: processYouTubeURL_def extractYouTubeVideoInfo_def Let_def)

lemma collect_embeds_acc:
  "collect_embeds urls acc = acc @ map processYouTubeURL (filter (\<lambda>url. url \<noteq> []) urls)"
  by (induction urls arbitrary: acc) auto

lemma read_embeds_absent: "files s f = None \<Longrightarrow> read_embeds s f = []"
  by (simp add: read_embeds_def os_ReadFile_def)

lemma read_embeds_present:
  "files s f = Some d \<Longrightarrow>
   read_embeds s f = map processYouTubeURL (filter (\<lambda>url. url \<noteq> []) (strings_Split d CHR 0x0A))"
  by (simp add: read_embeds_def os_ReadFile_def collect_embeds_acc)

lemma process_empty_iff: "processYouTubeURL l = [] \<longleftrightarrow> \<not> spec_has_reference l"
proof
  assume e: "processYouTubeURL l = []"
  show "\<not> spec_has_reference l"
  proof
    assume "spec_has_reference l"
    then obtain v where "extractYouTubeVideoInfo l = (''https://www.youtube.com/embed/'' @ v, v)"
      using extract_reference by blast
    with e show False by (simp add: process_fst)
  qed
next
  assume "\<not> spec_has_reference l"
  then show "processYouTubeURL l = []"
    by (simp add: process_fst extract_no_reference)
qed

lemma abc123_idChars: "list_all idChar ''abc123''"
  by (simp add: idChar_def is_lower_def is_upper_def is_digit_def in_range_def)

lemma youtu_be_shape: "''https://youtu.be/'' \<in> set spec_url_shapes"
  by (simp add: shapes_list)

lemma process_abc123: "processYouTubeURL ''https://youtu.be/abc123'' = ''https://www.youtube.com/embed/abc123''"
  using extract_shape [OF youtu_be_shape _ abc123_idChars]
  by (simp add: process_fst)




section \<open>Appending a link\<close>

lemma Split_not_Nil: "strings_Split s sep \<noteq> []"
  by (induction s) (auto split: list.splits)

lemma Split_parts_nosep: "p \<in> set (strings_Split s sep) \<Longrightarrow> sep \<notin> set p"
proof (induction s arbitrary: p)
  case Nil
  then show ?case by simp
next
  case (Cons c cs)
  show ?case
  proof (cases "c = sep")
    case True
    with Cons show ?thesis by auto
  next
    case False
    obtain q qs where q: "strings_Split cs sep = q # qs"
      using Split_not_Nil [of cs sep] by (cases "strings_Split cs sep") auto
    with Cons.prems False have "p = c # q \<or> p \<in> set qs" by simp
    then show ?thesis
    proof
      assume "p = c # q"
      moreover have "sep \<notin> set q" using Cons.IH [of q] q by simp
      ultimately show ?thesis using False by auto
    next
      assume "p \<in> set qs"
      then show ?thesis using Cons.IH [of p] q by simp
    qed
  qed
qed

lemma save_filename:
  assumes "3 < length (strings_Split path CHR ''/'')"
  shows "filepath_Join ''pages'' (strings_Split path CHR ''/'' ! 3 @ ''.youtube.txt'') =
         ''pages/'' @ strings_Split path CHR ''/'' ! 3 @ ''.youtube.txt''"
proof -
  have "strings_Split path CHR ''/'' ! 3 \<in> set (strings_Split path CHR ''/'')"
    using assms by (rule nth_mem)
  then have "CHR ''/'' \<notin> set (strings_Split path CHR ''/'' ! 3)"
    by (rule Split_parts_nosep)
  then show ?thesis
    using Join_pages_ext [of "strings_Split path CHR ''/'' ! 3" "''.youtube.txt''"] by simp
qed

lemma append_twice:
  assumes "fname \<notin> denied s" "\<not> full s"
  shows "(case os_OpenFile_append s fname of
            Inl err \<Rightarrow> (s, HttpError 500 ''Could not save link'')
          | Inr s1 \<Rightarrow>
              (case file_WriteString s1 fname data of
                 Inl err \<Rightarrow> (s1, HttpError 500 ''Could not save link'')
               | Inr s2 \<Rightarrow> (s2, Written 200 ''YouTube link saved!''))) =
         (s\<lparr>files := (files s)(fname \<mapsto> contents s fname @ data)\<rparr>,
          Written 200 ''YouTube link saved!'')"
  using assms by (simp add: os_OpenFile_append_def file_WriteString_def contents_def)

lemma save_valid:
  assumes "Method r = ''POST''" "3 < length (strings_Split (Path r) CHR ''/'')"
    "Decoded r = Some url"
    "fname = ''pages/'' @ strings_Split (Path r) CHR ''/'' ! 3 @ ''.youtube.txt''"
    "fname \<notin> denied s" "\<not> full s"
  shows "youtubeSaveHandler s r =
     (if spec_has_reference url
      then (s\<lparr>files := (files s)(fname \<mapsto> contents s fname @ url @ [CHR 0x0A])\<rparr>,
            Written 200 ''YouTube link saved!'')
      else (s, HttpError 400 ''Invalid YouTube URL''))"
proof -
  have e: "fst (extractYouTubeVideoInfo url) = [] \<longleftrightarrow> \<not> spec_has_reference url"
    using process_empty_iff [of url] by (simp add: process_fst)
  have l: "\<not> length (strings_Split (Path r) CHR ''/'') < 4" using assms(2) by simp
  have j: "filepath_Join ''pages'' (strings_Split (Path r) CHR ''/'' ! 3 @ ''.youtube.txt'') = fname"
    using save_filename [OF assms(2)] assms(4) by simp
  have "youtubeSaveHandler s r =
     (if \<not> spec_has_reference url
      then (s, HttpError 400 ''Invalid YouTube URL'')
      else (s\<lparr>files := (files s)(fname \<mapsto> contents s fname @ url @ [CHR 0x0A])\<rparr>,
            Written 200 ''YouTube link saved!''))"
    unfolding youtubeSaveHandler_def Let_def
    by (simp only: assms(1,3) l e j append_twice [OF assms(5,6)] if_False if_True option.case
        simp_thms)
  then show ?thesis
    by (cases "spec_has_reference url") simp_all
qed

lemma Split_save_path:
  assumes "CHR ''/'' \<notin> set slug"
  shows "strings_Split (''/api/page/'' @ slug @ ''/save-youtube'') CHR ''/'' =
     [[], ''api'', ''page'', slug, ''save-youtube'']"
  using Split_segment [OF assms, of "''save-youtube''"] by simp

lemma view_youtube_filename:
  assumes "CHR ''/'' \<notin> set slug" "slug \<noteq> []"
  shows "youtube_filename (''/page/'' @ slug) = ''pages/'' @ slug @ ''.youtube.txt''"
proof -
  have "safeSlug_of (''/page/'' @ slug) = slug"
    using Base_noslash [OF assms] by (simp add: safeSlug_of_def)
  moreover have "slug \<noteq> ''/''" using assms(1) by auto
  ultimately have "leaf_of (''/page/'' @ slug) = slug" by (simp add: leaf_of_def)
  then show ?thesis by (simp add: youtube_filename_leaf)
qed

lemma youtu_be_reference: "spec_has_reference ''https://youtu.be/abc123''"
  using process_empty_iff [of "''https://youtu.be/abc123''"] process_abc123 by simp

lemma Split_one_line: "strings_Split (''https://youtu.be/abc123'' @ [CHR 0x0A]) CHR 0x0A = [''https://youtu.be/abc123'', []]"
  by simp

text \<open>
  C8. For a decoded POST request to \<open>/api/page/{slug}/...\<close> on a writable store, the link
  append answers "Invalid YouTube URL" exactly when the URL text holds no YouTube
  reference; otherwise it appends the raw URL and a newline to the page's link file,
  keeping what the file held (nothing, if it was absent). Appending
  \<open>https://youtu.be/abc123\<close> to a page without a link file makes the link list of that
  page the one embed URL of \<open>abc123\<close>.
\<close>

theorem save_link_appends:
  assumes "Method r = ''POST''" "3 < length (strings_Split (Path r) CHR ''/'')"
    "Decoded r = Some url"
    "fname = ''pages/'' @ strings_Split (Path r) CHR ''/'' ! 3 @ ''.youtube.txt''"
    "fname \<notin> denied s" "\<not> full s"
  shows "youtubeSaveHandler s r =
     (if spec_has_reference url
      then (s\<lparr>files := (files s)(fname \<mapsto> contents s fname @ url @ [CHR 0x0A])\<rparr>,
            Written 200 ''YouTube link saved!'')
      else (s, HttpError 400 ''Invalid YouTube URL'')) \<and>
    (CHR ''/'' \<notin> set slug \<and> slug \<noteq> [] \<and> Path r = ''/api/page/'' @ slug @ ''/save-youtube'' \<and>
     files s fname = None \<and> url = ''https://youtu.be/abc123'' \<longrightarrow>
       read_embeds (fst (youtubeSaveHandler s r)) (youtube_filename (''/page/'' @ slug)) =
         [''https://www.youtube.com/embed/abc123''])"
proof -
  note a = save_valid [OF assms]
  have b: "read_embeds (fst (youtubeSaveHandler s r)) (youtube_filename (''/page/'' @ slug)) =
         [''https://www.youtube.com/embed/abc123'']"
    if h: "CHR ''/'' \<notin> set slug \<and> slug \<noteq> [] \<and> Path r = ''/api/page/'' @ slug @ ''/save-youtube'' \<and>
     files s fname = None \<and> url = ''https://youtu.be/abc123''"
  proof -
    have f: "fname = ''pages/'' @ slug @ ''.youtube.txt''"
      using assms(4) h Split_save_path [of slug] by simp
    have y: "youtube_filename (''/page/'' @ slug) = fname"
      using view_youtube_filename [of slug] h f by simp
    have c: "contents s fname = []" using h by (simp add: contents_def)
    have "files (fst (youtubeSaveHandler s r)) fname = Some (''https://youtu.be/abc123'' @ [CHR 0x0A])"
      using a h youtu_be_reference c by simp
    then have "read_embeds (fst (youtubeSaveHandler s r)) fname =
        map processYouTubeURL (filter (\<lambda>url. url \<noteq> [])
          (strings_Split (''https://youtu.be/abc123'' @ [CHR 0x0A]) CHR 0x0A))"
      by (rule read_embeds_present)
    then show ?thesis
      unfolding y Split_one_line by (simp add: process_abc123)
  qed
  show ?thesis using a b by blast
qed

theorem save_link_appends_witness:
  "youtubeSaveHandler empty_fs (post ''/api/page/my-page/save-youtube'' (Some ''not a url'')) =
     (empty_fs, HttpError 400 ''Invalid YouTube URL'') \<and>
   youtubeSaveHandler empty_fs (post ''/api/page/my-page/save-youtube'' (Some ''https://youtu.be/abc123'')) =
     (empty_fs\<lparr>files := [''pages/my-page.youtube.txt'' \<mapsto> ''https://youtu.be/abc123'' @ [CHR 0x0A]]\<rparr>,
      Written 200 ''YouTube link saved!'') \<and>
   read_embeds (fst (youtubeSaveHandler empty_fs
        (post ''/api/page/my-page/save-youtube'' (Some ''https://youtu.be/abc123''))))
      (youtube_filename ''/page/my-page'') = [''https://www.youtube.com/embed/abc123'']"
proof -
  let ?p = "''/api/page/my-page/save-youtube''"
  have sp: "strings_Split ?p CHR ''/'' = [[], ''api'', ''page'', ''my-page'', ''save-youtube'']"
    by simp
  have h: "Method (post ?p (Some u)) = ''POST''" "3 < length (strings_Split (Path (post ?p (Some u))) CHR ''/'')"
    "Decoded (post ?p (Some u)) = Some u"
    "''pages/my-page.youtube.txt'' = ''pages/'' @ strings_Split (Path (post ?p (Some u))) CHR ''/'' ! 3 @ ''.youtube.txt''"
    "''pages/my-page.youtube.txt'' \<notin> denied empty_fs" "\<not> full empty_fs" for u
    by (simp_all add: post_def sp empty_fs_def)
  note t1 = save_link_appends [OF h, of "''not a url''" "''my-page''"]
  note t2 = save_link_appends [OF h, of "''https://youtu.be/abc123''" "''my-page''"]
  have a: "youtubeSaveHandler empty_fs (post ?p (Some ''not a url'')) =
     (empty_fs, HttpError 400 ''Invalid YouTube URL'')"
    using t1 not_a_url by simp
  have b: "youtubeSaveHandler empty_fs (post ?p (Some ''https://youtu.be/abc123'')) =
     (empty_fs\<lparr>files := [''pages/my-page.youtube.txt'' \<mapsto> ''https://youtu.be/abc123'' @ [CHR 0x0A]]\<rparr>,
      Written 200 ''YouTube link saved!'')"
    using t2 youtu_be_reference by (simp add: contents_def empty_fs_def)
  have "CHR ''/'' \<notin> set ''my-page'' \<and> ''my-page'' \<noteq> [] \<and>
      Path (post ?p (Some ''https://youtu.be/abc123'')) = ''/api/page/'' @ ''my-page'' @ ''/save-youtube'' \<and>
      files empty_fs ''pages/my-page.youtube.txt'' = None \<and>
      ''https://youtu.be/abc123'' = ''https://youtu.be/abc123''"
    by (simp add: post_def empty_fs_def)
  with t2 have c: "read_embeds (fst (youtubeSaveHandler empty_fs (post ?p (Some ''https://youtu.be/abc123''))))
      (youtube_filename (''/page/'' @ ''my-page'')) = [''https://www.youtube.com/embed/abc123'']"
    by blast
  show ?thesis using a b c by simp
qed


section \<open>Voting\<close>

lemma Split_vote_path:
  assumes "CHR ''/'' \<notin> set slug" "CHR ''/'' \<notin> set videoID" "CHR ''/'' \<notin> set action"
  shows "strings_Split (''/api/vote/'' @ slug @ ''/'' @ videoID @ ''/'' @ action) CHR ''/'' =
     [[], ''api'', ''vote'', slug, videoID, action]"
proof -
  have "strings_Split (videoID @ CHR ''/'' # action) CHR ''/'' = [videoID, action]"
    using assms(2,3) by (simp add: Split_segment Split_noslash)
  then have "strings_Split (slug @ CHR ''/'' # videoID @ CHR ''/'' # action) CHR ''/'' =
      [slug, videoID, action]"
    using assms(1) by (simp add: Split_segment)
  then show ?thesis by simp
qed

text \<open>
  C3, on the code: the handler's comment gives the URL format
  \<open>/api/vote/{slug}/{videoID}/{action}\<close>, but the handler reads the action from the fifth
  piece of the split path, which for that format is the video ID. So every request of the
  documented format whose video ID is not itself \<open>upvote\<close> or \<open>downvote\<close> is answered
  "Invalid action", also when its action is \<open>upvote\<close> or \<open>downvote\<close>.
\<close>

theorem vote_wellformed_rejected:
  assumes "CHR ''/'' \<notin> set slug" "CHR ''/'' \<notin> set videoID"
    "action = ''upvote'' \<or> action = ''downvote''"
    "videoID \<noteq> ''upvote''" "videoID \<noteq> ''downvote''"
  shows "youtubeVoteHandler js s (post (''/api/vote/'' @ slug @ ''/'' @ videoID @ ''/'' @ action) body) =
     (s, HttpError 400 ''Invalid action'')"
proof -
  have "CHR ''/'' \<notin> set action" using assms(3) by auto
  then have sp: "strings_Split (''/api/vote/'' @ slug @ ''/'' @ videoID @ ''/'' @ action) CHR ''/'' =
     [[], ''api'', ''vote'', slug, videoID, action]"
    using assms(1,2) by (intro Split_vote_path)
  show ?thesis
    unfolding youtubeVoteHandler_def Let_def post_def
    using assms(4,5) by (simp add: sp del: append.simps)
qed

theorem vote_wellformed_rejected_witness:
  "youtubeVoteHandler \<lparr>Unmarshal = (\<lambda>d. None), Marshal = (\<lambda>v. None)\<rparr> empty_fs
     (post ''/api/vote/my-page/abc123/upvote'' None) =
     (empty_fs, HttpError 400 ''Invalid action'')"
  using vote_wellformed_rejected [of "''my-page''" "''abc123''" "''upvote''"
      "\<lparr>Unmarshal = (\<lambda>d. None), Marshal = (\<lambda>v. None)\<rparr>" empty_fs None]
  by simp

text \<open>
  C2, on the code: one upvote followed by two downvotes for \<open>abc123\<close> on the page
  \<open>my-page\<close>, sent in the documented URL format, are all answered "Invalid action" and
  leave the store as it was; no tally of \<open>-1\<close> is persisted.
\<close>

theorem vote_scenario_rejected:
  "(let up = post ''/api/vote/my-page/abc123/upvote'' None;
        down = post ''/api/vote/my-page/abc123/downvote'' None;
        (s1, r1) = youtubeVoteHandler js s up;
        (s2, r2) = youtubeVoteHandler js s1 down;
        (s3, r3) = youtubeVoteHandler js s2 down
    in s3 = s \<and> r1 = HttpError 400 ''Invalid action'' \<and> r2 = r1 \<and> r3 = r1)"
  by (simp add: youtubeVoteHandler_def post_def Let_def)

text \<open>
  The path the handler does accept has one piece less: the piece after \<open>/api/vote/\<close> is
  taken as the video ID, the next as the action, and the slug is always \<open>vote\<close>.
\<close>

lemma vote_accepts_shifted_path:
  assumes "Unmarshal js = (\<lambda>d. None)" "Marshal js = (\<lambda>v. Some ''{}'')"
  shows "youtubeVoteHandler js empty_fs (post ''/api/vote/abc123/upvote'' None) =
     (empty_fs\<lparr>files := [''pages/vote.votes.json'' \<mapsto> ''{}'']\<rparr>, Written 200 ''Vote saved!'')"
  using Join_pages_ext [of "''vote''" "''.votes.json''"]
  by (simp add: youtubeVoteHandler_def post_def Let_def empty_fs_def os_ReadFile_def
      os_WriteFile_def assms)

end
